theory Spec2Isabelle
  imports Main "HOL-Library.AList" "HOL-Library.Multiset"
begin

section \<open>The network server of examples/network-server/cmd/app/main.go\<close>

text \<open>
  The program is a TCP chat server made of goroutines: one \<open>handleConnection\<close> per accepted
  connection, one \<open>broadcastMessages\<close> loop (the coordinator), the accept loop and the
  main goroutine that waits for a termination signal. They share the \<open>Server\<close> struct.

  The embedding is an interleaving semantics. The state holds the fields of \<open>Server\<close>, the
  place where each goroutine stands, and what the environment can observe (what each
  connection received, which connections are closed, the console). An \<open>action\<close> is a stretch
  of one goroutine's code that runs without another goroutine in between: from one channel
  operation or read of the connection to the next. When a send on an unbuffered channel
  meets its receive, both goroutines go on in actions of their own (the handler with line
  60, the coordinator with the body of its case), so that either can come first. A schedule
  is a list of actions; what the scheduler, the network and the clock decide is written in
  the action.

  Every action has its sequential meaning. The Go runtime may instead stop the process when
  it finds a write to a map concurrent with a read of it; that is outside the model, as is
  a write to a connection that blocks.
\<close>

subsection \<open>Strings and formatting\<close>

text \<open>
  Strings are byte lists. \<open>strings.TrimSpace\<close> and \<open>strings.ToLower\<close> are modelled on ASCII
  bytes (tab, line feed, vertical tab, form feed, carriage return, space; the letters A to
  Z); bytes from 0x80 on are kept as they are, where Go consults its Unicode tables.
\<close>

definition nl :: string where
  "nl = [CHR 0x0A]"

definition isSpace :: "char \<Rightarrow> bool" where
  "isSpace c = (c \<in> set [CHR 0x09, CHR 0x0A, CHR 0x0B, CHR 0x0C, CHR 0x0D, CHR 0x20])"

definition TrimSpace :: "string \<Rightarrow> string" where
  "TrimSpace s = rev (dropWhile isSpace (rev (dropWhile isSpace s)))"

definition lower_char :: "char \<Rightarrow> char" where
  "lower_char c =
     (let n = (of_char c :: nat) in if 65 \<le> n \<and> n \<le> 90 then char_of (n + 32) else c)"

definition ToLower :: "string \<Rightarrow> string" where
  "ToLower s = map lower_char s"

definition digit_char :: "nat \<Rightarrow> char" where
  "digit_char d = char_of (48 + d)"

text \<open>The verb \<open>%d\<close> of \<open>fmt.Sprintf\<close> on a length.\<close>

fun itoa :: "nat \<Rightarrow> string" where
  "itoa n = (if n < 10 then [digit_char n] else itoa (n div 10) @ [digit_char (n mod 10)])"

declare itoa.simps [simp del]

text \<open>\<open>time.Now().Format("15:04:05")\<close> of a wall clock (hour, minute, second).\<close>

definition pad2 :: "nat \<Rightarrow> string" where
  "pad2 n = [digit_char (n div 10 mod 10), digit_char (n mod 10)]"

definition format_hms :: "nat \<times> nat \<times> nat \<Rightarrow> string" where
  "format_hms t = (case t of (h, m, sec) \<Rightarrow> pad2 h @ '':'' @ pad2 m @ '':'' @ pad2 sec)"

text \<open>The emoji of the source's string literals, as their UTF-8 bytes.\<close>

definition satellite :: string where "satellite = [CHR 0xF0, CHR 0x9F, CHR 0x93, CHR 0xA1]"
definition bust :: string where "bust = [CHR 0xF0, CHR 0x9F, CHR 0x91, CHR 0xA4]"
definition wave :: string where "wave = [CHR 0xF0, CHR 0x9F, CHR 0x91, CHR 0x8B]"
definition megaphone :: string where "megaphone = [CHR 0xF0, CHR 0x9F, CHR 0x93, CHR 0xA2]"
definition rocket :: string where "rocket = [CHR 0xF0, CHR 0x9F, CHR 0x9A, CHR 0x80]"
definition check_mark :: string where "check_mark = [CHR 0xE2, CHR 0x9C, CHR 0x85]"
definition bulb :: string where "bulb = [CHR 0xF0, CHR 0x9F, CHR 0x92, CHR 0xA1]"
definition cross_mark :: string where "cross_mark = [CHR 0xE2, CHR 0x9D, CHR 0x8C]"
definition stop_sign :: string where "stop_sign = [CHR 0xF0, CHR 0x9F, CHR 0x9B, CHR 0x91]"
definition globe :: string where "globe = [CHR 0xF0, CHR 0x9F, CHR 0x8C, CHR 0x90]"

subsection \<open>State\<close>

type_synonym conn = nat

text \<open>The three \<open>return\<close> points of \<open>handleConnection\<close>: line 51, line 90, the end (line 100).\<close>

datatype ret = RetNoName | RetQuit | RetEOF

text \<open>
  Where a handler stands. \<open>HReadName\<close>: at \<open>scanner.Scan()\<close> of line 50. \<open>HSendNew\<close>: blocked in
  \<open>s.newClients <- conn\<close> (line 59). \<open>HRegister\<close>: the send is done, before line 60.
  \<open>HLoop\<close>: at \<open>scanner.Scan()\<close> of line 65. \<open>HSendMsg\<close>: in \<open>s.messages <- ...\<close> (line 93).
  \<open>HSendDone\<close>: blocked in \<open>s.doneClients <- conn\<close> (line 98). \<open>HAfterDone\<close>: before line 99.
  The string is \<open>clientName\<close>; \<open>HSendMsg\<close> also carries the value being sent.
\<close>

datatype hpc =
    HReadName
  | HSendNew string
  | HRegister string
  | HLoop string
  | HSendMsg string string
  | HSendDone string
  | HAfterDone string
  | HReturned ret

text \<open>Where \<open>broadcastMessages\<close> stands: at the \<open>select\<close>, or in the body of one of its cases.\<close>

datatype cpc = CSelect | CNew conn | CDone conn | CMsg string

text \<open>
  Where the main goroutine stands: before \<open>net.Listen\<close>, at \<open><-sigChan\<close> (line 169), before the
  loop of line 173, after it, and the exited process with its status.
\<close>

datatype mpc = MInit | MWait | MDraining | MDrained | MExited nat

text \<open>What the coordinator has handled, in order (a history variable; no code reads it).\<close>

datatype event = Join conn | Leave conn | Message string

record server =
  clients :: "(conn \<times> string) list"
  messages :: "string list"
  handlers :: "conn \<Rightarrow> hpc option"
  coord :: cpc
  mainpc :: mpc
  remote :: "conn \<Rightarrow> string"
  delivered :: "conn \<Rightarrow> string list"
  closed_conns :: "conn set"
  broken :: "conn set"
  console :: "string list"
  errlog :: "string list"
  processed :: "event list"

text \<open>
  \<open>clients\<close> is the Go map \<open>s.clients\<close>, kept as an association list with distinct keys;
  \<open>messages\<close> is the buffered channel (capacity 100). The channels \<open>newClients\<close> and
  \<open>doneClients\<close> have no buffer: a send on them is a rendezvous with the coordinator.
  \<open>delivered h\<close> is what was written to connection \<open>h\<close> with success, one entry a \<open>Write\<close>.
\<close>

definition NewServer :: server where
  "NewServer = \<lparr> clients = [], messages = [], handlers = (\<lambda>_. None), coord = CSelect,
     mainpc = MInit, remote = (\<lambda>_. []), delivered = (\<lambda>_. []), closed_conns = {},
     broken = {}, console = [], errlog = [], processed = [] \<rparr>"

text \<open>What one \<open>scanner.Scan()\<close>, \<open>time.Now()\<close> and one \<open>range s.clients\<close> give a handler.\<close>

record env =
  rfc3339 :: string
  hms :: "nat \<times> nat \<times> nat"
  iter :: "(conn \<times> string) list"

subsection \<open>Writes, prints, close\<close>

definition writable :: "conn \<Rightarrow> server \<Rightarrow> bool" where
  "writable h s = (h \<notin> closed_conns s \<and> h \<notin> broken s)"

text \<open>\<open>conn.Write\<close>: the flag is \<open>err == nil\<close>. Every caller in the source drops it.\<close>

definition conn_Write :: "conn \<Rightarrow> string \<Rightarrow> server \<Rightarrow> bool \<times> server" where
  "conn_Write h b s =
     (if writable h s then (True, s\<lparr>delivered := (delivered s)(h := delivered s h @ [b])\<rparr>)
      else (False, s))"

definition conn_Close :: "conn \<Rightarrow> server \<Rightarrow> server" where
  "conn_Close h s = s\<lparr>closed_conns := insert h (closed_conns s)\<rparr>"

definition print :: "string \<Rightarrow> server \<Rightarrow> server" where
  "print b s = s\<lparr>console := console s @ [b]\<rparr>"

definition log_Printf :: "string \<Rightarrow> server \<Rightarrow> server" where
  "log_Printf b s = s\<lparr>errlog := errlog s @ [b]\<rparr>"

definition print_all :: "string list \<Rightarrow> server \<Rightarrow> server" where
  "print_all bs s = fold print bs s"

definition set_pc :: "conn \<Rightarrow> hpc \<Rightarrow> server \<Rightarrow> server" where
  "set_pc h pc s = s\<lparr>handlers := (handlers s)(h \<mapsto> pc)\<rparr>"

definition write_all :: "conn \<Rightarrow> string list \<Rightarrow> server \<Rightarrow> server" where
  "write_all h bs s = fold (\<lambda>b t. snd (conn_Write h b t)) bs s"

subsection \<open>handleConnection\<close>

text \<open>
  Lines 38 to 50, run by the goroutine that line 164 starts: the console line, the welcome
  banner and the name prompt; then the handler waits in \<open>scanner.Scan()\<close>.
\<close>

definition handler_start :: "conn \<Rightarrow> string \<Rightarrow> string \<Rightarrow> server \<Rightarrow> server" where
  "handler_start h clientAddr now s =
     (let s1 = print (satellite @ '' New connection from: '' @ clientAddr @ nl)
                 (s\<lparr>remote := (remote s)(h := clientAddr)\<rparr>);
          s2 = snd (conn_Write h (''Welcome to RISC-V Network Server!'' @ nl @ ''Server time: ''
                 @ now @ nl @ ''Type 'help' for commands.'' @ nl @ nl) s1);
          s3 = snd (conn_Write h ''Enter your name: '' s2)
      in set_pc h HReadName s3)"

text \<open>
  Lines 50 to 59: the first \<open>Scan\<close>. When it fails the handler returns (line 51) and the
  deferred \<open>conn.Close()\<close> runs. Otherwise the name is the trimmed line, or the remote
  address when that is empty, and the handler goes to the send of line 59.
\<close>

definition read_name :: "conn \<Rightarrow> string option \<Rightarrow> server \<Rightarrow> server" where
  "read_name h scanned s =
     (case scanned of
        None \<Rightarrow> conn_Close h (set_pc h (HReturned RetNoName) s)
      | Some text \<Rightarrow>
          (let trimmed = TrimSpace text;
               clientName = (if trimmed = [] then remote s h else trimmed)
           in set_pc h (HSendNew clientName) s))"

text \<open>Lines 60 to 62, after the send of line 59 has been taken.\<close>

definition register :: "conn \<Rightarrow> string \<Rightarrow> server \<Rightarrow> server" where
  "register h clientName s =
     set_pc h (HLoop clientName)
       (print (bust @ '' Client '' @ [CHR 0x27] @ clientName @ [CHR 0x27] @ '' ('' @ remote s h
               @ '') joined'' @ nl)
          (s\<lparr>clients := AList.update h clientName (clients s)\<rparr>))"

definition help_lines :: "string list" where
  "help_lines =
     [''Available commands:'' @ nl,
      ''  help    - Show this help'' @ nl,
      ''  time    - Get current server time'' @ nl,
      ''  clients - List connected clients'' @ nl,
      ''  quit    - Disconnect from server'' @ nl,
      ''  <text>  - Send message to all clients'' @ nl @ nl]"

text \<open>
  Lines 83 to 87. \<open>names\<close> are the values of \<open>s.clients\<close> in the order the \<open>range\<close> visits
  them; Go leaves that order open and changes it from one loop to the next.
\<close>

definition clients_reply :: "nat \<Rightarrow> string list \<Rightarrow> string list" where
  "clients_reply n names =
     [''Connected clients ('' @ itoa n @ ''):'' @ nl] @ map (\<lambda>name. ''  - '' @ name @ nl) names @ [nl]"

text \<open>
  One turn of the loop of lines 65 to 95 on a scanned line. \<open>None\<close>: the action is not
  possible (the order \<open>iter e\<close> is not an order of the map).
\<close>

definition handle_line :: "conn \<Rightarrow> string \<Rightarrow> string \<Rightarrow> env \<Rightarrow> server \<Rightarrow> server option" where
  "handle_line h clientName text e s =
     (let message = TrimSpace text in
      if message = [] then Some s
      else
        let cmd = ToLower message in
        if cmd = ''help'' then Some (write_all h help_lines s)
        else if cmd = ''time'' then
          Some (snd (conn_Write h (''Current server time: '' @ rfc3339 e @ nl @ nl) s))
        else if cmd = ''clients'' then
          (if mset (iter e) = mset (clients s)
           then Some (write_all h (clients_reply (length (clients s)) (map snd (iter e))) s)
           else None)
        else if cmd = ''quit'' then
          Some (conn_Close h (set_pc h (HReturned RetQuit) (snd (conn_Write h (''Goodbye!'' @ nl) s))))
        else
          Some (set_pc h (HSendMsg clientName
                  (''['' @ format_hms (hms e) @ ''] '' @ clientName @ '': '' @ message)) s))"

text \<open>The \<open>Scan\<close> of line 65: a line, or the end of the loop and the send of line 98.\<close>

definition read_line :: "conn \<Rightarrow> string \<Rightarrow> string option \<Rightarrow> env \<Rightarrow> server \<Rightarrow> server option" where
  "read_line h clientName scanned e s =
     (case scanned of
        None \<Rightarrow> Some (set_pc h (HSendDone clientName) s)
      | Some text \<Rightarrow> handle_line h clientName text e s)"

text \<open>Line 93 completes when the channel has room (capacity 100, line 31).\<close>

definition send_message :: "conn \<Rightarrow> string \<Rightarrow> string \<Rightarrow> server \<Rightarrow> server option" where
  "send_message h clientName m s =
     (if length (messages s) < 100
      then Some (set_pc h (HLoop clientName) (s\<lparr>messages := messages s @ [m]\<rparr>))
      else None)"

text \<open>Lines 99 and 100, and the deferred close.\<close>

definition handler_finish :: "conn \<Rightarrow> string \<Rightarrow> server \<Rightarrow> server" where
  "handler_finish h clientName s =
     conn_Close h (set_pc h (HReturned RetEOF)
       (print (wave @ '' Client '' @ [CHR 0x27] @ clientName @ [CHR 0x27] @ '' ('' @ remote s h
               @ '') disconnected'' @ nl) s))"

subsection \<open>broadcastMessages and broadcastToAll\<close>

definition broadcast_loop :: "string \<Rightarrow> conn option \<Rightarrow> conn list \<Rightarrow> server \<Rightarrow> server" where
  "broadcast_loop message excludeConn cs s =
     fold (\<lambda>c t. if Some c \<noteq> excludeConn then snd (conn_Write c message t) else t) cs s"

definition broadcastToAll :: "string \<Rightarrow> conn option \<Rightarrow> server \<Rightarrow> server" where
  "broadcastToAll message excludeConn s =
     print message (broadcast_loop message excludeConn (map fst (clients s)) s)"

text \<open>The case of line 105. A key that is not in a Go map reads as the empty string.\<close>

definition on_new :: "conn \<Rightarrow> server \<Rightarrow> server" where
  "on_new h s =
     (let clientName = (case map_of (clients s) h of Some n \<Rightarrow> n | None \<Rightarrow> [])
      in broadcastToAll (megaphone @ '' '' @ clientName @ '' joined the chat'' @ nl) (Some h) s)"

text \<open>The case of line 109.\<close>

definition on_done :: "conn \<Rightarrow> server \<Rightarrow> server" where
  "on_done h s =
     (case map_of (clients s) h of
        Some clientName \<Rightarrow>
          broadcastToAll (megaphone @ '' '' @ clientName @ '' left the chat'' @ nl) None
            (s\<lparr>clients := AList.delete h (clients s)\<rparr>)
      | None \<Rightarrow> s)"

text \<open>The case of line 115.\<close>

definition on_message :: "string \<Rightarrow> server \<Rightarrow> server" where
  "on_message m s = broadcastToAll (m @ nl) None s"

definition process :: "server \<Rightarrow> server option" where
  "process s =
     (case coord s of
        CSelect \<Rightarrow> None
      | CNew h \<Rightarrow> Some ((on_new h s)\<lparr>coord := CSelect, processed := processed s @ [Join h]\<rparr>)
      | CDone h \<Rightarrow> Some ((on_done h s)\<lparr>coord := CSelect, processed := processed s @ [Leave h]\<rparr>)
      | CMsg m \<Rightarrow> Some ((on_message m s)\<lparr>coord := CSelect, processed := processed s @ [Message m]\<rparr>))"

subsection \<open>main and startServer\<close>

text \<open>
  Lines 183 to 150. \<open>board\<close> is what \<open>getBoardInfo\<close> read; \<open>listen_err\<close> is the error of
  \<open>net.Listen\<close>, with which \<open>startServer\<close> returns and \<open>log.Fatalf\<close> ends the process with
  status 1.
\<close>

definition start :: "string \<Rightarrow> string option \<Rightarrow> server \<Rightarrow> server" where
  "start board listen_err s =
     (let s1 = print_all
            [globe @ '' RISC-V Network Server Example'' @ nl,
             ''Go version: Go 1.21+ (cross-compiled for RISC-V)'' @ nl,
             ''Architecture: RISC-V 64-bit (RV64GC)'' @ nl,
             ''Server will listen on port 8080'' @ nl @ nl,
             rocket @ '' Starting RISC-V Network Server'' @ nl,
             ''Board: '' @ board @ nl,
             ''Listening on: 0.0.0.0:8080'' @ nl,
             ''Server type: tcp'' @ nl] s
      in case listen_err of
           Some err \<Rightarrow>
             (log_Printf (cross_mark @ '' Server error: failed to start server: '' @ err) s1)
               \<lparr>mainpc := MExited 1\<rparr>
         | None \<Rightarrow>
             (print_all
               [check_mark @ '' Server started successfully!'' @ nl,
                bulb @ '' Try connecting with: telnet localhost 8080'' @ nl,
                bulb @ '' Or use: nc localhost 8080'' @ nl,
                bulb @ '' Press Ctrl+C to stop the server'' @ nl @ nl] s1)
               \<lparr>mainpc := MWait\<rparr>)"

text \<open>Lines 169 and 170.\<close>

definition on_signal :: "server \<Rightarrow> server" where
  "on_signal s =
     (print (nl @ stop_sign @ '' Shutting down server gracefully...'' @ nl) s)\<lparr>mainpc := MDraining\<rparr>"

text \<open>The loop of lines 173 to 176.\<close>

definition drain_loop :: "conn list \<Rightarrow> server \<Rightarrow> server" where
  "drain_loop cs s =
     fold (\<lambda>c t. conn_Close c (snd (conn_Write c (''Server is shutting down. Goodbye!'' @ nl) t))) cs s"

definition drain :: "server \<Rightarrow> server" where
  "drain s = (drain_loop (map fst (clients s)) s)\<lparr>mainpc := MDrained\<rparr>"

text \<open>Lines 178 and 179, and the return of \<open>main\<close>: the process ends with status 0.\<close>

definition finish :: "server \<Rightarrow> server" where
  "finish s = (print (check_mark @ '' Server shutdown complete'' @ nl) s)\<lparr>mainpc := MExited 0\<rparr>"

subsection \<open>Steps and runs\<close>

datatype action =
    Start string "string option"
  | Accept conn string string
  | AcceptErr string
  | Scan conn "string option" env
  | RecvNew conn
  | Register conn
  | SendMsg conn
  | RecvDone conn
  | Finish conn
  | RecvMsg
  | Process
  | Break conn
  | Signal
  | Drain
  | Exit

text \<open>
  \<open>Accept h addr now\<close>: \<open>listener.Accept\<close> returns the new connection \<open>h\<close> and its handler
  starts. \<open>Scan h line e\<close>: the \<open>Scan\<close> the handler waits in returns. \<open>RecvNew h\<close>,
  \<open>RecvDone h\<close>: the \<open>select\<close> takes the value handler \<open>h\<close> is sending. \<open>RecvMsg\<close>: it takes
  the head of \<open>messages\<close>. \<open>Process\<close>: the body of the case taken. \<open>Break h\<close>: the peer
  resets connection \<open>h\<close>, after which writes to it fail. \<open>Signal\<close>: SIGINT or SIGTERM arrives.
\<close>

definition listening :: "mpc \<Rightarrow> bool" where
  "listening m = (m = MWait \<or> m = MDraining \<or> m = MDrained)"

fun exec :: "action \<Rightarrow> server \<Rightarrow> server option" where
  "exec (Start board listen_err) s =
     (if mainpc s = MInit then Some (start board listen_err s) else None)"
| "exec (Accept h addr now) s =
     (if listening (mainpc s) \<and> handlers s h = None then Some (handler_start h addr now s) else None)"
| "exec (AcceptErr err) s =
     (if listening (mainpc s) then Some (log_Printf (cross_mark @ '' Connection error: '' @ err) s)
      else None)"
| "exec (Scan h scanned e) s =
     (case handlers s h of
        Some HReadName \<Rightarrow> Some (read_name h scanned s)
      | Some (HLoop clientName) \<Rightarrow> read_line h clientName scanned e s
      | _ \<Rightarrow> None)"
| "exec (RecvNew h) s =
     (case (coord s, handlers s h) of
        (CSelect, Some (HSendNew clientName)) \<Rightarrow>
          Some (set_pc h (HRegister clientName) (s\<lparr>coord := CNew h\<rparr>))
      | _ \<Rightarrow> None)"
| "exec (Register h) s =
     (case handlers s h of
        Some (HRegister clientName) \<Rightarrow> Some (register h clientName s)
      | _ \<Rightarrow> None)"
| "exec (SendMsg h) s =
     (case handlers s h of
        Some (HSendMsg clientName m) \<Rightarrow> send_message h clientName m s
      | _ \<Rightarrow> None)"
| "exec (RecvDone h) s =
     (case (coord s, handlers s h) of
        (CSelect, Some (HSendDone clientName)) \<Rightarrow>
          Some (set_pc h (HAfterDone clientName) (s\<lparr>coord := CDone h\<rparr>))
      | _ \<Rightarrow> None)"
| "exec (Finish h) s =
     (case handlers s h of
        Some (HAfterDone clientName) \<Rightarrow> Some (handler_finish h clientName s)
      | _ \<Rightarrow> None)"
| "exec RecvMsg s =
     (case (coord s, messages s) of
        (CSelect, m # ms) \<Rightarrow> Some (s\<lparr>coord := CMsg m, messages := ms\<rparr>)
      | _ \<Rightarrow> None)"
| "exec Process s = process s"
| "exec (Break h) s =
     (if handlers s h \<noteq> None then Some (s\<lparr>broken := insert h (broken s)\<rparr>) else None)"
| "exec Signal s = (if mainpc s = MWait then Some (on_signal s) else None)"
| "exec Drain s = (if mainpc s = MDraining then Some (drain s) else None)"
| "exec Exit s = (if mainpc s = MDrained then Some (finish s) else None)"

text \<open>Nothing runs in a process that has exited.\<close>

definition exited :: "server \<Rightarrow> bool" where
  "exited s = (case mainpc s of MExited _ \<Rightarrow> True | _ \<Rightarrow> False)"

definition step :: "action \<Rightarrow> server \<Rightarrow> server option" where
  "step a s = (if exited s then None else exec a s)"

fun run :: "action list \<Rightarrow> server \<Rightarrow> server option" where
  "run [] s = Some s"
| "run (a # as) s = (case step a s of None \<Rightarrow> None | Some t \<Rightarrow> run as t)"

subsection \<open>Notions the properties are stated with\<close>

text \<open>Connection \<open>h\<close> is a key of the registry \<open>s.clients\<close>.\<close>

definition registered :: "conn \<Rightarrow> server \<Rightarrow> bool" where
  "registered h s = (h \<in> set (map fst (clients s)))"

definition pc_of :: "conn \<Rightarrow> server \<Rightarrow> hpc option" where
  "pc_of h s = handlers s h"

definition received :: "conn \<Rightarrow> server \<Rightarrow> string list" where
  "received h s = delivered s h"

definition is_closed :: "conn \<Rightarrow> server \<Rightarrow> bool" where
  "is_closed h s = (h \<in> closed_conns s)"

text \<open>The handler has executed the write of line 60.\<close>

fun wrote :: "hpc option \<Rightarrow> bool" where
  "wrote (Some (HLoop _)) = True"
| "wrote (Some (HSendMsg _ _)) = True"
| "wrote (Some (HSendDone _)) = True"
| "wrote (Some (HAfterDone _)) = True"
| "wrote (Some (HReturned RetQuit)) = True"
| "wrote (Some (HReturned RetEOF)) = True"
| "wrote _ = False"

text \<open>The send of line 59 has been taken; the send of line 98 has been taken.\<close>

fun sent_new :: "hpc option \<Rightarrow> bool" where
  "sent_new (Some (HRegister _)) = True"
| "sent_new pc = wrote pc"

fun sent_done :: "hpc option \<Rightarrow> bool" where
  "sent_done (Some (HAfterDone _)) = True"
| "sent_done (Some (HReturned RetEOF)) = True"
| "sent_done _ = False"


text \<open>Which goroutine an action belongs to. A receive is the coordinator's \<open>select\<close>.\<close>

datatype goroutine = MainTask | AcceptLoop | Handler conn | Coordinator | Peer

fun actor :: "action \<Rightarrow> goroutine" where
  "actor (Start _ _) = MainTask"
| "actor (Accept _ _ _) = AcceptLoop"
| "actor (AcceptErr _) = AcceptLoop"
| "actor (Scan h _ _) = Handler h"
| "actor (RecvNew _) = Coordinator"
| "actor (Register h) = Handler h"
| "actor (SendMsg h) = Handler h"
| "actor (RecvDone _) = Coordinator"
| "actor (Finish h) = Handler h"
| "actor RecvMsg = Coordinator"
| "actor Process = Coordinator"
| "actor (Break _) = Peer"
| "actor Signal = MainTask"
| "actor Drain = MainTask"
| "actor Exit = MainTask"

text \<open>The facts about one connection that hold in every state a run reaches.\<close>

definition conn_inv :: "conn \<Rightarrow> server \<Rightarrow> bool" where
  "conn_inv h s =
     ((registered h s = (wrote (handlers s h) \<and> Leave h \<notin> set (processed s))) \<and>
      ((Leave h \<in> set (processed s) \<or> coord s = CDone h) \<longrightarrow> sent_done (handlers s h)) \<and>
      ((Join h \<in> set (processed s) \<or> coord s = CNew h) = sent_new (handlers s h)))"

definition inv :: "server \<Rightarrow> bool" where
  "inv s = (distinct (map fst (clients s)) \<and> (\<forall>h. conn_inv h s))"

text \<open>The text a \<open>clients\<close> query wrote: what connection \<open>h\<close> received between two states.\<close>

definition new_output :: "conn \<Rightarrow> server \<Rightarrow> server \<Rightarrow> string list" where
  "new_output h s t = drop (length (delivered s h)) (delivered t h)"

subsection \<open>Schedules used as concrete inputs\<close>

definition clock0 :: env where
  "clock0 = \<lparr>rfc3339 = ''2024-01-15T10:30:45Z'', hms = (10, 30, 47), iter = []\<rparr>"

text \<open>One client connects and gives the name Alice; the coordinator takes its Join.\<close>

definition alice_sends_join :: "action list" where
  "alice_sends_join =
     [Start ''Milk-V Duo'' None, Accept 1 ''127.0.0.1:45678'' ''2024-01-15T10:30:45Z'',
      Scan 1 (Some ''Alice'') clock0, RecvNew 1]"

definition alice_joined :: "action list" where
  "alice_joined = alice_sends_join @ [Register 1, Process]"

text \<open>A second client, Bob, joins after Alice.\<close>

definition alice_bob_joined :: "action list" where
  "alice_bob_joined =
     alice_joined @
     [Accept 2 ''127.0.0.1:45679'' ''2024-01-15T10:30:50Z'', Scan 2 (Some ''Bob'') clock0,
      RecvNew 2, Register 2, Process]"

text \<open>The state a schedule leads to from the start (the start itself when it cannot run).\<close>

definition after :: "action list \<Rightarrow> server" where
  "after sched = (case run sched NewServer of Some s \<Rightarrow> s | None \<Rightarrow> NewServer)"



text \<open>What the console and the error log gained between two states.\<close>

definition new_console :: "server \<Rightarrow> server \<Rightarrow> string list" where
  "new_console s t = drop (length (console s)) (console t)"

definition new_errlog :: "server \<Rightarrow> server \<Rightarrow> string list" where
  "new_errlog s t = drop (length (errlog s)) (errlog t)"

text \<open>The schedule can run from the start: every action is possible when its turn comes.\<close>

definition runs :: "action list \<Rightarrow> bool" where
  "runs sched = (case run sched NewServer of Some _ \<Rightarrow> True | None \<Rightarrow> False)"

text \<open>Alice joins and then sends the command \<open>quit\<close>.\<close>

definition alice_quits :: "action list" where
  "alice_quits = alice_joined @ [Scan 1 (Some ''quit'') clock0]"




text \<open>
  Alice and Bob have joined and Bob says hi; the coordinator has taken the message from the
  channel. In the second schedule Alice's connection was reset before that.
\<close>

definition bob_says_hi :: "action list" where
  "bob_says_hi = alice_bob_joined @ [Scan 2 (Some ''hi'') clock0, SendMsg 2, RecvMsg]"

definition bob_says_hi_alice_reset :: "action list" where
  "bob_says_hi_alice_reset =
     alice_bob_joined @ [Break 1, Scan 2 (Some ''hi'') clock0, SendMsg 2, RecvMsg]"


text \<open>The two orders in which a \<open>range\<close> can visit the registry of Alice and Bob.\<close>

definition alice_first :: env where
  "alice_first = clock0\<lparr>iter := [(1, ''Alice''), (2, ''Bob'')]\<rparr>"

definition bob_first :: env where
  "bob_first = clock0\<lparr>iter := [(2, ''Bob''), (1, ''Alice'')]\<rparr>"

definition two_queries :: "action list" where
  "two_queries =
     alice_bob_joined @ [Scan 1 (Some ''clients'') alice_first, Scan 1 (Some ''clients'') bob_first]"

section \<open>Lemmas\<close>

subsection \<open>What the helpers leave alone\<close>

text \<open>
  Each helper changes the fields it is about and no other. A loop over connections delivers
  to each connection at most once when the list has no duplicates.
\<close>

lemma conn_Write_frame [simp]:
  "clients (snd (conn_Write h b s)) = clients s"
  "messages (snd (conn_Write h b s)) = messages s"
  "handlers (snd (conn_Write h b s)) = handlers s"
  "coord (snd (conn_Write h b s)) = coord s"
  "mainpc (snd (conn_Write h b s)) = mainpc s"
  "remote (snd (conn_Write h b s)) = remote s"
  "closed_conns (snd (conn_Write h b s)) = closed_conns s"
  "broken (snd (conn_Write h b s)) = broken s"
  "console (snd (conn_Write h b s)) = console s"
  "errlog (snd (conn_Write h b s)) = errlog s"
  "processed (snd (conn_Write h b s)) = processed s"
  by (simp_all add: conn_Write_def)

lemma writable_conn_Write [simp]: "writable c (snd (conn_Write h b s)) = writable c s"
  by (simp add: writable_def)

lemma delivered_conn_Write:
  "delivered (snd (conn_Write h b s)) c =
     (if c = h \<and> writable h s then delivered s h @ [b] else delivered s c)"
  by (simp add: conn_Write_def)

lemma print_frame [simp]:
  "clients (print b s) = clients s"
  "messages (print b s) = messages s"
  "handlers (print b s) = handlers s"
  "coord (print b s) = coord s"
  "mainpc (print b s) = mainpc s"
  "remote (print b s) = remote s"
  "delivered (print b s) = delivered s"
  "closed_conns (print b s) = closed_conns s"
  "broken (print b s) = broken s"
  "console (print b s) = console s @ [b]"
  "errlog (print b s) = errlog s"
  "processed (print b s) = processed s"
  by (simp_all add: print_def)

lemma log_Printf_frame [simp]:
  "clients (log_Printf b s) = clients s"
  "messages (log_Printf b s) = messages s"
  "handlers (log_Printf b s) = handlers s"
  "coord (log_Printf b s) = coord s"
  "mainpc (log_Printf b s) = mainpc s"
  "remote (log_Printf b s) = remote s"
  "delivered (log_Printf b s) = delivered s"
  "closed_conns (log_Printf b s) = closed_conns s"
  "broken (log_Printf b s) = broken s"
  "console (log_Printf b s) = console s"
  "errlog (log_Printf b s) = errlog s @ [b]"
  "processed (log_Printf b s) = processed s"
  by (simp_all add: log_Printf_def)

lemma conn_Close_frame [simp]:
  "clients (conn_Close h s) = clients s"
  "messages (conn_Close h s) = messages s"
  "handlers (conn_Close h s) = handlers s"
  "coord (conn_Close h s) = coord s"
  "mainpc (conn_Close h s) = mainpc s"
  "remote (conn_Close h s) = remote s"
  "delivered (conn_Close h s) = delivered s"
  "closed_conns (conn_Close h s) = insert h (closed_conns s)"
  "broken (conn_Close h s) = broken s"
  "console (conn_Close h s) = console s"
  "errlog (conn_Close h s) = errlog s"
  "processed (conn_Close h s) = processed s"
  by (simp_all add: conn_Close_def)

lemma set_pc_frame [simp]:
  "clients (set_pc h pc s) = clients s"
  "messages (set_pc h pc s) = messages s"
  "handlers (set_pc h pc s) = (handlers s)(h \<mapsto> pc)"
  "coord (set_pc h pc s) = coord s"
  "mainpc (set_pc h pc s) = mainpc s"
  "remote (set_pc h pc s) = remote s"
  "delivered (set_pc h pc s) = delivered s"
  "closed_conns (set_pc h pc s) = closed_conns s"
  "broken (set_pc h pc s) = broken s"
  "console (set_pc h pc s) = console s"
  "errlog (set_pc h pc s) = errlog s"
  "processed (set_pc h pc s) = processed s"
  by (simp_all add: set_pc_def)

lemma print_all_frame [simp]:
  "clients (print_all bs s) = clients s"
  "messages (print_all bs s) = messages s"
  "handlers (print_all bs s) = handlers s"
  "coord (print_all bs s) = coord s"
  "mainpc (print_all bs s) = mainpc s"
  "remote (print_all bs s) = remote s"
  "delivered (print_all bs s) = delivered s"
  "closed_conns (print_all bs s) = closed_conns s"
  "broken (print_all bs s) = broken s"
  "console (print_all bs s) = console s @ bs"
  "errlog (print_all bs s) = errlog s"
  "processed (print_all bs s) = processed s"
  unfolding print_all_def by (induction bs arbitrary: s; simp)+

lemma write_all_frame [simp]:
  "clients (write_all h bs s) = clients s"
  "messages (write_all h bs s) = messages s"
  "handlers (write_all h bs s) = handlers s"
  "coord (write_all h bs s) = coord s"
  "mainpc (write_all h bs s) = mainpc s"
  "remote (write_all h bs s) = remote s"
  "closed_conns (write_all h bs s) = closed_conns s"
  "broken (write_all h bs s) = broken s"
  "console (write_all h bs s) = console s"
  "errlog (write_all h bs s) = errlog s"
  "processed (write_all h bs s) = processed s"
  unfolding write_all_def by (induction bs arbitrary: s; simp)+

lemma writable_write_all [simp]: "writable c (write_all h bs s) = writable c s"
  by (simp add: writable_def)

lemma delivered_write_all:
  "delivered (write_all h bs s) c =
     (if c = h \<and> writable h s then delivered s h @ bs else delivered s c)"
  unfolding write_all_def
  by (induction bs arbitrary: s) (simp_all add: delivered_conn_Write)

lemma broadcast_loop_frame [simp]:
  "clients (broadcast_loop m x cs s) = clients s"
  "messages (broadcast_loop m x cs s) = messages s"
  "handlers (broadcast_loop m x cs s) = handlers s"
  "coord (broadcast_loop m x cs s) = coord s"
  "mainpc (broadcast_loop m x cs s) = mainpc s"
  "remote (broadcast_loop m x cs s) = remote s"
  "closed_conns (broadcast_loop m x cs s) = closed_conns s"
  "broken (broadcast_loop m x cs s) = broken s"
  "console (broadcast_loop m x cs s) = console s"
  "errlog (broadcast_loop m x cs s) = errlog s"
  "processed (broadcast_loop m x cs s) = processed s"
  unfolding broadcast_loop_def by (induction cs arbitrary: s; simp)+

lemma writable_broadcast_loop [simp]: "writable c (broadcast_loop m x cs s) = writable c s"
  by (simp add: writable_def)

lemma delivered_broadcast_loop:
  "distinct cs \<Longrightarrow>
   delivered (broadcast_loop m x cs s) c =
     (if c \<in> set cs \<and> Some c \<noteq> x \<and> writable c s then delivered s c @ [m] else delivered s c)"
  unfolding broadcast_loop_def
  by (induction cs arbitrary: s) (auto simp: delivered_conn_Write)

lemma broadcastToAll_frame [simp]:
  "clients (broadcastToAll m x s) = clients s"
  "messages (broadcastToAll m x s) = messages s"
  "handlers (broadcastToAll m x s) = handlers s"
  "coord (broadcastToAll m x s) = coord s"
  "mainpc (broadcastToAll m x s) = mainpc s"
  "remote (broadcastToAll m x s) = remote s"
  "closed_conns (broadcastToAll m x s) = closed_conns s"
  "broken (broadcastToAll m x s) = broken s"
  "console (broadcastToAll m x s) = console s @ [m]"
  "errlog (broadcastToAll m x s) = errlog s"
  "processed (broadcastToAll m x s) = processed s"
  by (simp_all add: broadcastToAll_def)

lemma drain_loop_frame [simp]:
  "clients (drain_loop cs s) = clients s"
  "messages (drain_loop cs s) = messages s"
  "handlers (drain_loop cs s) = handlers s"
  "coord (drain_loop cs s) = coord s"
  "mainpc (drain_loop cs s) = mainpc s"
  "remote (drain_loop cs s) = remote s"
  "broken (drain_loop cs s) = broken s"
  "console (drain_loop cs s) = console s"
  "errlog (drain_loop cs s) = errlog s"
  "processed (drain_loop cs s) = processed s"
  unfolding drain_loop_def by (induction cs arbitrary: s; simp)+



subsection \<open>The invariant\<close>

text \<open>
  The invariant speaks of one connection at a time, so that each action is checked against
  the connection it acts on and against any other one. The keys of the registry stay
  distinct because the only changes of the registry are an update and a deletion.
\<close>

lemma inv_NewServer: "inv NewServer"
  by (simp add: inv_def conn_inv_def NewServer_def registered_def)

lemma exited_simps [simp]:
  "exited (s\<lparr>mainpc := m\<rparr>) = (case m of MExited _ \<Rightarrow> True | _ \<Rightarrow> False)"
  by (simp add: exited_def)

lemma registered_frame [simp]:
  "registered h (snd (conn_Write c b s)) = registered h s"
  "registered h (print b s) = registered h s"
  "registered h (print_all bs s) = registered h s"
  "registered h (log_Printf b s) = registered h s"
  "registered h (conn_Close c s) = registered h s"
  "registered h (set_pc c pc s) = registered h s"
  "registered h (write_all c bs s) = registered h s"
  "registered h (broadcastToAll m x s) = registered h s"
  "registered h (drain_loop cs s) = registered h s"
  "registered h (s\<lparr>messages := ms\<rparr>) = registered h s"
  "registered h (s\<lparr>coord := cp\<rparr>) = registered h s"
  "registered h (s\<lparr>mainpc := mp\<rparr>) = registered h s"
  "registered h (s\<lparr>remote := rm\<rparr>) = registered h s"
  "registered h (s\<lparr>broken := br\<rparr>) = registered h s"
  "registered h (s\<lparr>processed := evs\<rparr>) = registered h s"
  by (simp_all add: registered_def)

lemma registered_update [simp]:
  "registered h (s\<lparr>clients := AList.update k v (clients s)\<rparr>) = (h = k \<or> registered h s)"
  by (auto simp: registered_def update_keys)

lemma registered_delete [simp]:
  "registered h (s\<lparr>clients := AList.delete k (clients s)\<rparr>) = (h \<noteq> k \<and> registered h s)"
  by (auto simp: registered_def delete_keys)

lemma start_frame [simp]:
  "clients (start b l s) = clients s"
  "handlers (start b l s) = handlers s"
  "coord (start b l s) = coord s"
  "processed (start b l s) = processed s"
  "registered h (start b l s) = registered h s"
  by (simp_all add: start_def registered_def Let_def split: option.splits)

lemma handler_start_frame [simp]:
  "clients (handler_start h a n s) = clients s"
  "handlers (handler_start h a n s) = (handlers s)(h \<mapsto> HReadName)"
  "coord (handler_start h a n s) = coord s"
  "processed (handler_start h a n s) = processed s"
  "registered c (handler_start h a n s) = registered c s"
  by (simp_all add: handler_start_def registered_def Let_def)

lemma handle_line_frame:
  "handle_line h n text e s = Some t \<Longrightarrow>
     clients t = clients s \<and> coord t = coord s \<and> processed t = processed s \<and>
     messages t = messages s \<and> mainpc t = mainpc s \<and>
     (\<forall>c. c \<noteq> h \<longrightarrow> handlers t c = handlers s c) \<and>
     (handlers t h = handlers s h \<or> handlers t h = Some (HReturned RetQuit) \<or>
      (\<exists>m. handlers t h = Some (HSendMsg n m)))"
  by (auto simp: handle_line_def Let_def split: if_splits)


lemma conn_inv_Start: "conn_inv c s \<Longrightarrow> exec (Start b l) s = Some t \<Longrightarrow> conn_inv c t"
  by (auto simp: conn_inv_def split: if_splits)

lemma conn_inv_Accept: "conn_inv c s \<Longrightarrow> exec (Accept h a n) s = Some t \<Longrightarrow> conn_inv c t"
  by (cases "c = h") (auto simp: conn_inv_def split: if_splits)

lemma conn_inv_AcceptErr: "conn_inv c s \<Longrightarrow> exec (AcceptErr e) s = Some t \<Longrightarrow> conn_inv c t"
  by (auto simp: conn_inv_def split: if_splits)

lemma conn_inv_Scan: "conn_inv c s \<Longrightarrow> exec (Scan h sc e) s = Some t \<Longrightarrow> conn_inv c t"
proof -
  assume ci: "conn_inv c s" and ex: "exec (Scan h sc e) s = Some t"
  show ?thesis
  proof (cases "handlers s h")
    case None
    with ex show ?thesis by simp
  next
    case (Some pc)
    show ?thesis
    proof (cases pc)
      case HReadName
      with Some ex have t: "t = read_name h sc s" by simp
      show ?thesis unfolding t read_name_def using ci Some HReadName
        by (cases "c = h") (auto simp: conn_inv_def Let_def split: option.splits)
    next
      case (HLoop n)
      with Some ex have rl: "read_line h n sc e s = Some t" by simp
      show ?thesis
      proof (cases sc)
        case None
        with rl have "t = set_pc h (HSendDone n) s" by (simp add: read_line_def)
        then show ?thesis using ci Some HLoop by (cases "c = h") (auto simp: conn_inv_def)
      next
        case (Some ln)
        with rl have "handle_line h n ln e s = Some t" by (simp add: read_line_def)
        from handle_line_frame[OF this] ci \<open>handlers s h = Some pc\<close> HLoop show ?thesis
          by (cases "c = h") (auto simp: conn_inv_def registered_def)
      qed
    qed (insert Some ex, simp_all)
  qed
qed


lemma conn_inv_RecvNew: "conn_inv c s \<Longrightarrow> exec (RecvNew h) s = Some t \<Longrightarrow> conn_inv c t"
  by (cases "c = h") (auto simp: conn_inv_def split: cpc.splits option.splits hpc.splits)

lemma conn_inv_Register: "conn_inv c s \<Longrightarrow> exec (Register h) s = Some t \<Longrightarrow> conn_inv c t"
  by (cases "c = h") (auto simp: conn_inv_def register_def split: option.splits hpc.splits)

lemma conn_inv_SendMsg: "conn_inv c s \<Longrightarrow> exec (SendMsg h) s = Some t \<Longrightarrow> conn_inv c t"
  by (cases "c = h")
     (auto simp: conn_inv_def send_message_def registered_def split: option.splits hpc.splits if_splits)

lemma conn_inv_RecvDone: "conn_inv c s \<Longrightarrow> exec (RecvDone h) s = Some t \<Longrightarrow> conn_inv c t"
  by (cases "c = h") (auto simp: conn_inv_def split: cpc.splits option.splits hpc.splits)

lemma conn_inv_Finish: "conn_inv c s \<Longrightarrow> exec (Finish h) s = Some t \<Longrightarrow> conn_inv c t"
  by (cases "c = h") (auto simp: conn_inv_def handler_finish_def split: option.splits hpc.splits)

lemma conn_inv_RecvMsg: "conn_inv c s \<Longrightarrow> exec RecvMsg s = Some t \<Longrightarrow> conn_inv c t"
  by (auto simp: conn_inv_def registered_def split: cpc.splits list.splits)


lemma on_new_frame [simp]:
  "clients (on_new h s) = clients s"
  "handlers (on_new h s) = handlers s"
  "messages (on_new h s) = messages s"
  "mainpc (on_new h s) = mainpc s"
  "closed_conns (on_new h s) = closed_conns s"
  "broken (on_new h s) = broken s"
  "registered c (on_new h s) = registered c s"
  by (simp_all add: on_new_def Let_def)

lemma on_message_frame [simp]:
  "clients (on_message m s) = clients s"
  "handlers (on_message m s) = handlers s"
  "messages (on_message m s) = messages s"
  "mainpc (on_message m s) = mainpc s"
  "closed_conns (on_message m s) = closed_conns s"
  "broken (on_message m s) = broken s"
  "registered c (on_message m s) = registered c s"
  by (simp_all add: on_message_def)

lemma clients_on_done [simp]: "clients (on_done h s) = AList.delete h (clients s)"
proof (cases "map_of (clients s) h")
  case None
  then have "h \<notin> fst ` set (clients s)" by (simp add: map_of_eq_None_iff)
  then have "AList.delete h (clients s) = clients s" by (rule delete_id)
  with None show ?thesis by (simp add: on_done_def)
next
  case (Some n)
  then show ?thesis by (simp add: on_done_def)
qed

lemma registered_on_done [simp]: "registered c (on_done h s) = (c \<noteq> h \<and> registered c s)"
  by (auto simp: registered_def delete_keys)

lemma on_done_frame [simp]:
  "handlers (on_done h s) = handlers s"
  "messages (on_done h s) = messages s"
  "mainpc (on_done h s) = mainpc s"
  "closed_conns (on_done h s) = closed_conns s"
  "broken (on_done h s) = broken s"
  by (simp_all add: on_done_def split: option.splits)

lemma conn_inv_Process: "conn_inv c s \<Longrightarrow> exec Process s = Some t \<Longrightarrow> conn_inv c t"
proof -
  assume ci: "conn_inv c s" and ex: "exec Process s = Some t"
  show ?thesis
  proof (cases "coord s")
    case CSelect
    with ex show ?thesis by (simp add: process_def)
  next
    case (CNew h)
    with ex have "t = (on_new h s)\<lparr>coord := CSelect, processed := processed s @ [Join h]\<rparr>"
      by (simp add: process_def)
    with ci CNew show ?thesis by (cases "c = h") (auto simp: conn_inv_def)
  next
    case (CDone h)
    with ex have "t = (on_done h s)\<lparr>coord := CSelect, processed := processed s @ [Leave h]\<rparr>"
      by (simp add: process_def)
    with ci CDone show ?thesis by (cases "c = h") (auto simp: conn_inv_def)
  next
    case (CMsg m)
    with ex have "t = (on_message m s)\<lparr>coord := CSelect, processed := processed s @ [Message m]\<rparr>"
      by (simp add: process_def)
    with ci CMsg show ?thesis by (auto simp: conn_inv_def)
  qed
qed

lemma conn_inv_Break: "conn_inv c s \<Longrightarrow> exec (Break h) s = Some t \<Longrightarrow> conn_inv c t"
  by (auto simp: conn_inv_def split: if_splits)

lemma conn_inv_Signal: "conn_inv c s \<Longrightarrow> exec Signal s = Some t \<Longrightarrow> conn_inv c t"
  by (auto simp: conn_inv_def on_signal_def split: if_splits)

lemma conn_inv_Drain: "conn_inv c s \<Longrightarrow> exec Drain s = Some t \<Longrightarrow> conn_inv c t"
  by (auto simp: conn_inv_def drain_def split: if_splits)

lemma conn_inv_Exit: "conn_inv c s \<Longrightarrow> exec Exit s = Some t \<Longrightarrow> conn_inv c t"
  by (auto simp: conn_inv_def finish_def split: if_splits)

lemma conn_inv_exec: "conn_inv c s \<Longrightarrow> exec a s = Some t \<Longrightarrow> conn_inv c t"
  by (cases a)
    (blast intro: conn_inv_Start conn_inv_Accept conn_inv_AcceptErr conn_inv_Scan conn_inv_RecvNew
       conn_inv_Register conn_inv_SendMsg conn_inv_RecvDone conn_inv_Finish conn_inv_RecvMsg
       conn_inv_Process conn_inv_Break conn_inv_Signal conn_inv_Drain conn_inv_Exit)+

lemma exec_clients:
  "exec a s = Some t \<Longrightarrow>
     clients t = clients s \<or>
     (\<exists>h n. a = Register h \<and> handlers s h = Some (HRegister n) \<and>
            clients t = AList.update h n (clients s)) \<or>
     (\<exists>h. a = Process \<and> coord s = CDone h \<and> clients t = AList.delete h (clients s))"
proof (cases a)
  case (Scan h sc e)
  assume "exec a s = Some t"
  with Scan show ?thesis
    by (auto simp: read_name_def read_line_def Let_def dest: handle_line_frame
          split: option.splits hpc.splits)
next
  case Process
  assume "exec a s = Some t"
  with Process show ?thesis
    by (auto simp: process_def split: cpc.splits)
qed (auto simp: register_def send_message_def handler_finish_def on_signal_def drain_def finish_def
       split: if_splits option.splits hpc.splits cpc.splits list.splits)

lemma distinct_exec:
  "distinct (map fst (clients s)) \<Longrightarrow> exec a s = Some t \<Longrightarrow> distinct (map fst (clients t))"
  by (drule exec_clients) (auto simp: distinct_update distinct_delete)

lemma inv_step: "inv s \<Longrightarrow> step a s = Some t \<Longrightarrow> inv t"
  by (auto simp: inv_def step_def intro: conn_inv_exec distinct_exec split: if_splits)

lemma inv_run': "inv s \<Longrightarrow> run as s = Some t \<Longrightarrow> inv t"
  by (induction as arbitrary: s) (auto intro: inv_step split: option.splits)

lemma inv_run: "run as NewServer = Some t \<Longrightarrow> inv t"
  using inv_run' inv_NewServer by blast

subsection \<open>Runs\<close>

text \<open>
  A handler that has returned stays where it is and can send nothing. The order in which a
  broadcast visits the connections has no effect on the outcome.
\<close>

lemma run_append: "run (as @ bs) s = (case run as s of None \<Rightarrow> None | Some t \<Rightarrow> run bs t)"
  by (induction as arbitrary: s) (auto split: option.splits)

lemma run_split:
  "run (as @ a # bs) s = Some u \<Longrightarrow> \<exists>s' t. run as s = Some s' \<and> step a s' = Some t \<and> run bs t = Some u"
  by (auto simp: run_append split: option.splits)

lemma returned_exec:
  "handlers s h = Some (HReturned r) \<Longrightarrow> exec a s = Some t \<Longrightarrow> handlers t h = Some (HReturned r)"
proof (cases a)
  case (Scan c sc e)
  assume "handlers s h = Some (HReturned r)" "exec a s = Some t"
  with Scan show ?thesis
    by (cases "c = h")
       (auto simp: read_name_def read_line_def Let_def dest: handle_line_frame
          split: option.splits hpc.splits)
qed (auto simp: register_def send_message_def handler_finish_def on_signal_def drain_def finish_def
       process_def split: if_splits option.splits hpc.splits cpc.splits list.splits)

lemma returned_run:
  "handlers s h = Some (HReturned r) \<Longrightarrow> run as s = Some t \<Longrightarrow> handlers t h = Some (HReturned r)"
  by (induction as arbitrary: s)
     (auto simp: step_def dest: returned_exec split: option.splits if_splits)

lemma returned_no_send:
  "handlers s h = Some (HReturned r) \<Longrightarrow>
     step (RecvNew h) s = None \<and> step (SendMsg h) s = None \<and> step (RecvDone h) s = None"
  by (simp add: step_def split: cpc.splits)

lemma runs_after: "runs sched \<Longrightarrow> run sched NewServer = Some (after sched)"
  by (simp add: runs_def after_def split: option.splits)

lemma runs_step: "runs (as @ [a]) \<Longrightarrow> step a (after as) = Some (after (as @ [a]))"
  by (auto simp: runs_def after_def run_append split: option.splits)

lemma runs_prefix: "runs (as @ bs) \<Longrightarrow> runs as"
  by (auto simp: runs_def run_append split: option.splits)

lemma runs_run: "runs (as @ bs) \<Longrightarrow> run bs (after as) = Some (after (as @ bs))"
  by (auto simp: runs_def after_def run_append split: option.splits)

lemma broadcast_loop_permute:
  assumes "mset cs = mset cs'"
  shows "broadcast_loop m x cs s = broadcast_loop m x cs' s"
proof -
  have "fold (\<lambda>c t. if Some c \<noteq> x then snd (conn_Write c m t) else t) cs =
        fold (\<lambda>c t. if Some c \<noteq> x then snd (conn_Write c m t) else t) cs'"
    by (rule fold_multiset_equiv[OF _ assms])
       (auto simp: fun_eq_iff conn_Write_def writable_def fun_upd_twist)
  then show ?thesis by (simp add: broadcast_loop_def)
qed

lemma delivered_broadcastToAll:
  "distinct (map fst (clients s)) \<Longrightarrow>
   delivered (broadcastToAll m x s) c =
     (if registered c s \<and> Some c \<noteq> x \<and> writable c s then delivered s c @ [m] else delivered s c)"
  by (simp add: broadcastToAll_def delivered_broadcast_loop registered_def)

lemma length_format_hms: "length (format_hms t) = 8"
  by (cases t) (simp add: format_hms_def pad2_def)

subsection \<open>Trimming and lower case\<close>

lemma isSpace_code: "isSpace c = ((of_char c :: nat) \<in> {9, 10, 11, 12, 13, 32})"
  by (cases c) (simp add: isSpace_def; blast)

lemma of_char_lower: "(of_char (lower_char c) :: nat) =
   (if 65 \<le> (of_char c :: nat) \<and> (of_char c :: nat) \<le> 90 then of_char c + 32 else of_char c)"
  by (simp add: lower_char_def Let_def)

lemma isSpace_lower [simp]: "isSpace (lower_char c) = isSpace c"
  unfolding isSpace_code of_char_lower by auto

lemma lower_lower [simp]: "lower_char (lower_char c) = lower_char c"
  by (simp add: lower_char_def Let_def)




subsection \<open>The shutdown loop and the reply to a query\<close>



lemma mset_clients_reply:
  "mset (clients_reply k names) =
     {#''Connected clients ('' @ itoa k @ ''):'' @ nl#} +
     image_mset (\<lambda>name. ''  - '' @ name @ nl) (mset names) + {#nl#}"
  by (simp add: clients_reply_def)

lemma clients_query_output:
  assumes "pc_of h s = Some (HLoop n)" "ToLower (TrimSpace ln) = ''clients''"
    "step (Scan h (Some ln) e) s = Some t" "writable h s"
  shows "new_output h s t = clients_reply (length (clients s)) (map snd (iter e))"
    and "mset (iter e) = mset (clients s)"
proof -
  from assms(2) have ne: "TrimSpace ln \<noteq> []" by (auto simp: ToLower_def)
  from assms(1,3) have "handle_line h n ln e s = Some t"
    by (clarsimp simp: step_def pc_of_def read_line_def split: if_splits)
  with assms(2) ne show ok: "mset (iter e) = mset (clients s)"
    and "new_output h s t = clients_reply (length (clients s)) (map snd (iter e))"
    using assms(4)
    by (auto simp: handle_line_def Let_def new_output_def delivered_write_all split: if_splits)
qed

section \<open>The properties\<close>

text \<open>
  C1 (as amended). The registry has two writers. A step changes \<open>s.clients\<close> only when it is
  a handler executing line 60, which inserts the handler's own connection, or the
  coordinator executing line 111 for a Leave, which deletes one. A handler also reads the
  registry itself: the reply to \<open>clients\<close> is computed from \<open>s.clients\<close> in the handler's
  own step, with no message to the coordinator.
\<close>

theorem registry_written_by_handlers_and_coordinator:
  "(step a s = Some t \<longrightarrow>
      clients t = clients s \<or>
      (\<exists>h n. a = Register h \<and> actor a = Handler h \<and> pc_of h s = Some (HRegister n) \<and>
             clients t = AList.update h n (clients s)) \<or>
      (\<exists>h. a = Process \<and> actor a = Coordinator \<and> coord s = CDone h \<and>
           clients t = AList.delete h (clients s))) \<and>
   (pc_of h s = Some (HLoop n) \<and> ToLower (TrimSpace ln) = ''clients'' \<and>
    step (Scan h (Some ln) e) s = Some t' \<longrightarrow>
      received h t' =
        (if writable h s
         then received h s @ clients_reply (length (clients s)) (map snd (iter e))
         else received h s) \<and>
      mset (iter e) = mset (clients s) \<and>
      coord t' = coord s \<and> messages t' = messages s \<and> processed t' = processed s)"
proof -
  have first: "clients t = clients s \<or>
      (\<exists>h n. a = Register h \<and> actor a = Handler h \<and> pc_of h s = Some (HRegister n) \<and>
             clients t = AList.update h n (clients s)) \<or>
      (\<exists>h. a = Process \<and> actor a = Coordinator \<and> coord s = CDone h \<and>
           clients t = AList.delete h (clients s))" if "step a s = Some t"
  proof -
    from that have "exec a s = Some t" by (simp add: step_def split: if_splits)
    from exec_clients[OF this] show ?thesis by (auto simp: pc_of_def)
  qed
  have second: "received h t' =
        (if writable h s
         then received h s @ clients_reply (length (clients s)) (map snd (iter e))
         else received h s) \<and>
      mset (iter e) = mset (clients s) \<and>
      coord t' = coord s \<and> messages t' = messages s \<and> processed t' = processed s"
    if a: "pc_of h s = Some (HLoop n) \<and> ToLower (TrimSpace ln) = ''clients'' \<and>
      step (Scan h (Some ln) e) s = Some t'"
  proof -
  from a have ne: "TrimSpace ln \<noteq> []" by (auto simp: ToLower_def)
  from a have hl: "handle_line h n ln e s = Some t'"
    by (clarsimp simp: step_def pc_of_def read_line_def split: if_splits)
  with a ne have ok: "mset (iter e) = mset (clients s)"
    and t': "t' = write_all h (clients_reply (length (clients s)) (map snd (iter e))) s"
    by (simp_all add: handle_line_def Let_def split: if_splits)
  show ?thesis
    using ok unfolding t' by (simp add: received_def delivered_write_all)
  qed
  from first second show ?thesis by blast
qed

theorem registry_written_by_handlers_witness:
  "step (Register 1) (after alice_sends_join) = Some (after (alice_sends_join @ [Register 1])) \<and>
   clients (after alice_sends_join) = [] \<and>
   clients (after (alice_sends_join @ [Register 1])) = AList.update 1 ''Alice'' [] \<and>
   pc_of 1 (after alice_joined) = Some (HLoop ''Alice'') \<and>
   ToLower (TrimSpace '' Clients '') = ''clients'' \<and>
   step (Scan 1 (Some '' Clients '') (clock0\<lparr>iter := [(1, ''Alice'')]\<rparr>)) (after alice_joined)
     = Some (after (alice_joined @ [Scan 1 (Some '' Clients '') (clock0\<lparr>iter := [(1, ''Alice'')]\<rparr>)])) \<and>
   received 1 (after (alice_joined @ [Scan 1 (Some '' Clients '') (clock0\<lparr>iter := [(1, ''Alice'')]\<rparr>)]))
     = received 1 (after alice_joined) @ [''Connected clients (1):'' @ nl, ''  - Alice'' @ nl, nl]"
proof -
  let ?e = "clock0\<lparr>iter := [(1, ''Alice'')]\<rparr>"
  have "runs (alice_sends_join @ [Register 1])" by code_simp
  then have 1: "step (Register 1) (after alice_sends_join) = Some (after (alice_sends_join @ [Register 1]))"
    by (rule runs_step)
  have 2: "clients (after alice_sends_join) = []" by code_simp
  have ne2: "clients (after (alice_sends_join @ [Register 1])) \<noteq> []" by code_simp
  have pc2: "pc_of 1 (after alice_sends_join) = Some (HRegister ''Alice'')" by code_simp
  have 3: "pc_of 1 (after alice_joined) = Some (HLoop ''Alice'')" by code_simp
  have 4: "ToLower (TrimSpace '' Clients '') = ''clients''" by code_simp
  have "runs (alice_joined @ [Scan 1 (Some '' Clients '') ?e])" by code_simp
  then have 5: "step (Scan 1 (Some '' Clients '') ?e) (after alice_joined)
     = Some (after (alice_joined @ [Scan 1 (Some '' Clients '') ?e]))" by (rule runs_step)
  have 6: "writable 1 (after alice_joined)" by code_simp
  have 7: "clients (after alice_joined) = [(1, ''Alice'')]" by code_simp
  have 8: "itoa 1 = ''1''" by code_simp
  from registry_written_by_handlers_and_coordinator
     [of "Register 1" "after alice_sends_join" "after (alice_sends_join @ [Register 1])"] 1 2 ne2 pc2
  have a: "clients (after (alice_sends_join @ [Register 1])) = AList.update 1 ''Alice'' []"
    by auto
  from registry_written_by_handlers_and_coordinator
     [where h = 1 and s = "after alice_joined" and n = "''Alice''" and ln = "'' Clients ''"
        and e = ?e and t' = "after (alice_joined @ [Scan 1 (Some '' Clients '') ?e])"] 3 4 5 6 7 8
  have b: "received 1 (after (alice_joined @ [Scan 1 (Some '' Clients '') ?e]))
     = received 1 (after alice_joined) @ [''Connected clients (1):'' @ nl, ''  - Alice'' @ nl, nl]"
    by (simp add: clients_reply_def)
  from 1 2 3 4 5 a b show ?thesis by blast
qed

text \<open>
  C1 as stated fails: the step that puts Alice's connection into the registry is the
  handler's (line 60), not the coordinator's.
\<close>

theorem handler_writes_registry:
  "actor (Register 1) = Handler 1 \<and>
   runs (alice_sends_join @ [Register 1]) \<and>
   clients (after alice_sends_join) = [] \<and>
   clients (after (alice_sends_join @ [Register 1])) = [(1, ''Alice'')]"
  by code_simp

text \<open>
  C2. The code does not do what the specification says. After \<open>quit\<close> the handler writes the
  farewell line and returns at line 90, which closes the connection, but it skips the send
  of line 98: in every later state no Leave for the connection has been processed, none can
  be sent, and the connection is still in the registry.
\<close>

theorem quit_emits_no_leave:
  assumes "run pre NewServer = Some s"
    and "pc_of h s = Some (HLoop n)"
    and "ToLower (TrimSpace ln) = ''quit''"
    and "step (Scan h (Some ln) e) s = Some t"
    and "run post t = Some u"
  shows "received h t = (if writable h s then received h s @ [''Goodbye!'' @ nl] else received h s) \<and>
         is_closed h t \<and> pc_of h t = Some (HReturned RetQuit) \<and>
         pc_of h u = Some (HReturned RetQuit) \<and> step (RecvDone h) u = None \<and>
         coord u \<noteq> CDone h \<and> Leave h \<notin> set (processed u) \<and> registered h u"
proof -
  from assms(3) have ne: "TrimSpace ln \<noteq> []" by (auto simp: ToLower_def)
  from assms(2,4) have "handle_line h n ln e s = Some t"
    by (clarsimp simp: step_def pc_of_def read_line_def split: if_splits)
  with assms(3) ne
  have t: "t = conn_Close h (set_pc h (HReturned RetQuit) (snd (conn_Write h (''Goodbye!'' @ nl) s)))"
    by (simp add: handle_line_def Let_def)
  then have pt: "handlers t h = Some (HReturned RetQuit)" by simp
  from returned_run[OF pt assms(5)] have pu: "handlers u h = Some (HReturned RetQuit)" .
  from assms(1,4,5) have "run (pre @ Scan h (Some ln) e # post) NewServer = Some u"
    by (simp add: run_append)
  then have "inv u" by (rule inv_run)
  then have "conn_inv h u" by (simp add: inv_def)
  with pu have "coord u \<noteq> CDone h \<and> Leave h \<notin> set (processed u) \<and> registered h u"
    by (auto simp: conn_inv_def)
  moreover from t have "received h t =
      (if writable h s then received h s @ [''Goodbye!'' @ nl] else received h s) \<and> is_closed h t"
    by (simp add: received_def is_closed_def delivered_conn_Write)
  ultimately show ?thesis using pt pu returned_no_send[OF pu] by (simp add: pc_of_def)
qed

theorem quit_emits_no_leave_witness:
  "run alice_joined NewServer = Some (after alice_joined) \<and>
   pc_of 1 (after alice_joined) = Some (HLoop ''Alice'') \<and>
   ToLower (TrimSpace ''quit'') = ''quit'' \<and>
   step (Scan 1 (Some ''quit'') clock0) (after alice_joined) = Some (after alice_quits) \<and>
   run [Accept 2 ''127.0.0.1:45679'' ''2024-01-15T10:30:50Z''] (after alice_quits)
     = Some (after (alice_quits @ [Accept 2 ''127.0.0.1:45679'' ''2024-01-15T10:30:50Z''])) \<and>
   is_closed 1 (after alice_quits) \<and>
   Leave 1 \<notin> set (processed (after (alice_quits @ [Accept 2 ''127.0.0.1:45679'' ''2024-01-15T10:30:50Z'']))) \<and>
   registered 1 (after (alice_quits @ [Accept 2 ''127.0.0.1:45679'' ''2024-01-15T10:30:50Z'']))"
proof -
  let ?post = "[Accept 2 ''127.0.0.1:45679'' ''2024-01-15T10:30:50Z'']"
  have r: "runs (alice_quits @ ?post)" by code_simp
  then have rq: "runs alice_quits" by (rule runs_prefix)
  then have "runs (alice_joined @ [Scan 1 (Some ''quit'') clock0])" by (simp add: alice_quits_def)
  then have 1: "run alice_joined NewServer = Some (after alice_joined)"
    and 4: "step (Scan 1 (Some ''quit'') clock0) (after alice_joined) = Some (after alice_quits)"
    using runs_after[OF runs_prefix] runs_step by (auto simp: alice_quits_def)
  have 2: "pc_of 1 (after alice_joined) = Some (HLoop ''Alice'')" by code_simp
  have 3: "ToLower (TrimSpace ''quit'') = ''quit''" by code_simp
  from r have 5: "run ?post (after alice_quits) = Some (after (alice_quits @ ?post))"
    by (rule runs_run)
  from quit_emits_no_leave[OF 1 2 3 4 5] 1 2 3 4 5 show ?thesis by simp
qed













text \<open>
  C8 (as amended). In a broadcast a write that fails changes nothing and stops nothing: every
  registered connection other than the excluded one that can be written receives the
  message, whatever happens to the others; the console gains the message and nothing else,
  the error log gains nothing, so the failure is reported nowhere; and the coordinator
  always finishes the case it is in and returns to its \<open>select\<close>.
\<close>

theorem broadcast_ignores_write_failures:
  assumes "run sched NewServer = Some s"
  shows "(registered c s \<and> Some c \<noteq> x \<and> writable c s \<longrightarrow>
            received c (broadcastToAll m x s) = received c s @ [m]) \<and>
         (\<not> writable c s \<longrightarrow> received c (broadcastToAll m x s) = received c s) \<and>
         new_console s (broadcastToAll m x s) = [m] \<and>
         new_errlog s (broadcastToAll m x s) = [] \<and>
         clients (broadcastToAll m x s) = clients s \<and>
         (coord s \<noteq> CSelect \<and> \<not> exited s \<longrightarrow>
            (\<exists>t. step Process s = Some t \<and> coord t = CSelect))"
proof -
  from assms have "inv s" by (rule inv_run)
  then have d: "distinct (map fst (clients s))" by (simp add: inv_def)
  have "coord s \<noteq> CSelect \<Longrightarrow> \<not> exited s \<Longrightarrow> \<exists>t. step Process s = Some t \<and> coord t = CSelect"
    by (cases "coord s") (simp_all add: step_def process_def)
  then show ?thesis
    by (auto simp: received_def delivered_broadcastToAll[OF d] new_console_def new_errlog_def)
qed

theorem broadcast_ignores_write_failures_witness:
  "run bob_says_hi_alice_reset NewServer = Some (after bob_says_hi_alice_reset) \<and>
   registered 1 (after bob_says_hi_alice_reset) \<and> \<not> writable 1 (after bob_says_hi_alice_reset) \<and>
   registered 2 (after bob_says_hi_alice_reset) \<and> writable 2 (after bob_says_hi_alice_reset) \<and>
   coord (after bob_says_hi_alice_reset) \<noteq> CSelect \<and> \<not> exited (after bob_says_hi_alice_reset) \<and>
   received 2 (broadcastToAll ''hello'' None (after bob_says_hi_alice_reset))
     = received 2 (after bob_says_hi_alice_reset) @ [''hello''] \<and>
   received 1 (broadcastToAll ''hello'' None (after bob_says_hi_alice_reset))
     = received 1 (after bob_says_hi_alice_reset) \<and>
   (\<exists>t. step Process (after bob_says_hi_alice_reset) = Some t \<and> coord t = CSelect)"
proof -
  have "runs bob_says_hi_alice_reset" by code_simp
  then have 1: "run bob_says_hi_alice_reset NewServer = Some (after bob_says_hi_alice_reset)"
    by (rule runs_after)
  have 2: "registered 1 (after bob_says_hi_alice_reset)" by code_simp
  have 3: "\<not> writable 1 (after bob_says_hi_alice_reset)" by code_simp
  have 4: "registered 2 (after bob_says_hi_alice_reset)" by code_simp
  have 5: "writable 2 (after bob_says_hi_alice_reset)" by code_simp
  have 6: "coord (after bob_says_hi_alice_reset) \<noteq> CSelect" by code_simp
  have 7: "\<not> exited (after bob_says_hi_alice_reset)" by code_simp
  from broadcast_ignores_write_failures[OF 1, of 2 None "''hello''"]
       broadcast_ignores_write_failures[OF 1, of 1 None "''hello''"]
       1 2 3 4 5 6 7
  show ?thesis by simp
qed

text \<open>
  C8 as stated fails in one part: the failure is not logged. Alice's connection is reset;
  the broadcast of Bob's message cannot write to it; the console gains the message alone and
  the error log nothing, exactly as in the run where the write succeeds.
\<close>

theorem write_failure_is_not_logged:
  "runs (bob_says_hi_alice_reset @ [Process]) \<and>
   registered 1 (after bob_says_hi_alice_reset) \<and>
   \<not> writable 1 (after bob_says_hi_alice_reset) \<and>
   coord (after bob_says_hi_alice_reset) = CMsg ''[10:30:47] Bob: hi'' \<and>
   received 1 (after (bob_says_hi_alice_reset @ [Process])) = received 1 (after bob_says_hi_alice_reset) \<and>
   received 2 (after (bob_says_hi_alice_reset @ [Process]))
     = received 2 (after bob_says_hi_alice_reset) @ [''[10:30:47] Bob: hi'' @ nl] \<and>
   new_console (after bob_says_hi_alice_reset) (after (bob_says_hi_alice_reset @ [Process]))
     = [''[10:30:47] Bob: hi'' @ nl] \<and>
   new_errlog (after bob_says_hi_alice_reset) (after (bob_says_hi_alice_reset @ [Process])) = [] \<and>
   runs (bob_says_hi @ [Process]) \<and> writable 1 (after bob_says_hi) \<and>
   new_console (after bob_says_hi) (after (bob_says_hi @ [Process])) = [''[10:30:47] Bob: hi'' @ nl] \<and>
   new_errlog (after bob_says_hi) (after (bob_says_hi @ [Process])) = []"
  by code_simp

text \<open>
  C9 (as amended). Two \<open>clients\<close> queries of a client between which the registry has not
  changed write the same count line and the same name lines, in the order in which each
  \<open>range\<close> visits the map: the two outputs are equal as collections of lines, and equal
  line for line when both loops visit the map in the same order.
\<close>

theorem clients_query_same_lines:
  assumes "pc_of h s = Some (HLoop n)" and "ToLower (TrimSpace l1) = ''clients''"
    and "step (Scan h (Some l1) e1) s = Some t" and "writable h s"
    and "run mid t = Some u" and "clients u = clients s"
    and "pc_of h u = Some (HLoop n)" and "ToLower (TrimSpace l2) = ''clients''"
    and "step (Scan h (Some l2) e2) u = Some v" and "writable h u"
  shows "new_output h s t = clients_reply (length (clients s)) (map snd (iter e1)) \<and>
         new_output h u v = clients_reply (length (clients s)) (map snd (iter e2)) \<and>
         hd (new_output h s t) = hd (new_output h u v) \<and>
         mset (new_output h s t) = mset (new_output h u v) \<and>
         (iter e1 = iter e2 \<longrightarrow> new_output h s t = new_output h u v)"
proof -
  note q1 = clients_query_output[OF assms(1,2,3,4)]
  note q2 = clients_query_output[OF assms(7,8,9,10)]
  from q1(2) q2(2) assms(6) have "mset (map snd (iter e1)) = mset (map snd (iter e2))"
    by (metis mset_map)
  then have "mset (clients_reply (length (clients s)) (map snd (iter e1))) =
             mset (clients_reply (length (clients s)) (map snd (iter e2)))"
    by (simp only: mset_clients_reply)
  with q1(1) q2(1) assms(6) show ?thesis by (simp add: clients_reply_def)
qed

theorem clients_query_same_lines_witness:
  "pc_of 1 (after alice_bob_joined) = Some (HLoop ''Alice'') \<and>
   ToLower (TrimSpace ''clients'') = ''clients'' \<and>
   step (Scan 1 (Some ''clients'') alice_first) (after alice_bob_joined)
     = Some (after (alice_bob_joined @ [Scan 1 (Some ''clients'') alice_first])) \<and>
   writable 1 (after alice_bob_joined) \<and>
   run [] (after (alice_bob_joined @ [Scan 1 (Some ''clients'') alice_first]))
     = Some (after (alice_bob_joined @ [Scan 1 (Some ''clients'') alice_first])) \<and>
   clients (after (alice_bob_joined @ [Scan 1 (Some ''clients'') alice_first])) = clients (after alice_bob_joined) \<and>
   step (Scan 1 (Some ''clients'') bob_first) (after (alice_bob_joined @ [Scan 1 (Some ''clients'') alice_first]))
     = Some (after two_queries) \<and>
   mset (new_output 1 (after alice_bob_joined) (after (alice_bob_joined @ [Scan 1 (Some ''clients'') alice_first])))
     = mset (new_output 1 (after (alice_bob_joined @ [Scan 1 (Some ''clients'') alice_first])) (after two_queries))"
proof -
  let ?q1 = "alice_bob_joined @ [Scan 1 (Some ''clients'') alice_first]"
  have 1: "pc_of 1 (after alice_bob_joined) = Some (HLoop ''Alice'')" by code_simp
  have 2: "ToLower (TrimSpace ''clients'') = ''clients''" by code_simp
  have rr: "runs (?q1 @ [Scan 1 (Some ''clients'') bob_first])" by code_simp
  then have 9: "step (Scan 1 (Some ''clients'') bob_first) (after ?q1) = Some (after two_queries)"
    using runs_step[OF rr] by (simp add: two_queries_def)
  from rr have "runs ?q1" by (rule runs_prefix)
  then have 3: "step (Scan 1 (Some ''clients'') alice_first) (after alice_bob_joined) = Some (after ?q1)"
    by (rule runs_step)
  have 4: "writable 1 (after alice_bob_joined)" by code_simp
  have 5: "run [] (after ?q1) = Some (after ?q1)" by simp
  have 6: "clients (after ?q1) = clients (after alice_bob_joined)" by code_simp
  have 7: "pc_of 1 (after ?q1) = Some (HLoop ''Alice'')" by code_simp
  have 10: "writable 1 (after ?q1)" by code_simp
  from clients_query_same_lines[OF 1 2 3 4 5 6 7 2 9 10] 1 2 3 4 5 6 9 show ?thesis
    by (intro conjI) (elim conjE, assumption)+
qed

text \<open>
  C9 as stated fails: Alice asks twice with Alice and Bob registered and nothing processed in
  between. The first loop visits Alice then Bob, the second Bob then Alice, as Go allows;
  the two listings differ.
\<close>

theorem clients_listing_order_differs:
  "runs two_queries \<and>
   processed (after two_queries) = processed (after alice_bob_joined) \<and>
   clients (after two_queries) = clients (after alice_bob_joined) \<and>
   new_output 1 (after alice_bob_joined) (after (alice_bob_joined @ [Scan 1 (Some ''clients'') alice_first]))
     = [''Connected clients (2):'' @ nl, ''  - Alice'' @ nl, ''  - Bob'' @ nl, nl] \<and>
   new_output 1 (after (alice_bob_joined @ [Scan 1 (Some ''clients'') alice_first])) (after two_queries)
     = [''Connected clients (2):'' @ nl, ''  - Bob'' @ nl, ''  - Alice'' @ nl, nl] \<and>
   new_output 1 (after alice_bob_joined) (after (alice_bob_joined @ [Scan 1 (Some ''clients'') alice_first]))
     \<noteq> new_output 1 (after (alice_bob_joined @ [Scan 1 (Some ''clients'') alice_first])) (after two_queries)"
  by code_simp

text \<open>
  C10. When the first read after the name prompt fails, the handler returns at once (line 51):
  the connection is closed, the registry and the channels are as before, and in every later
  state the connection is not registered, the coordinator has processed no Join and no Leave
  for it and holds none, and none of the handler's three sends can happen.
\<close>

theorem eof_before_name_never_registers:
  assumes "run pre NewServer = Some s"
    and "handlers s h = Some HReadName"
    and "step (Scan h None e) s = Some t"
    and "run post t = Some u"
  shows "pc_of h t = Some (HReturned RetNoName) \<and> is_closed h t \<and>
         clients t = clients s \<and> messages t = messages s \<and> coord t = coord s \<and>
         pc_of h u = Some (HReturned RetNoName) \<and> \<not> registered h u \<and>
         Join h \<notin> set (processed u) \<and> Leave h \<notin> set (processed u) \<and>
         coord u \<noteq> CNew h \<and> coord u \<noteq> CDone h \<and>
         step (RecvNew h) u = None \<and> step (SendMsg h) u = None \<and> step (RecvDone h) u = None"
proof -
  from assms(2,3) have t: "t = read_name h None s"
    by (simp add: step_def split: if_splits)
  then have pt: "handlers t h = Some (HReturned RetNoName)"
    by (simp add: read_name_def)
  from returned_run[OF pt assms(4)] have pu: "handlers u h = Some (HReturned RetNoName)" .
  from assms(1,3,4) have "run (pre @ Scan h None e # post) NewServer = Some u"
    by (simp add: run_append)
  then have "inv u" by (rule inv_run)
  then have "conn_inv h u" by (simp add: inv_def)
  with pu have "\<not> registered h u \<and> Join h \<notin> set (processed u) \<and> Leave h \<notin> set (processed u) \<and>
      coord u \<noteq> CNew h \<and> coord u \<noteq> CDone h"
    by (auto simp: conn_inv_def)
  moreover from t have "is_closed h t \<and> clients t = clients s \<and> messages t = messages s \<and> coord t = coord s"
    by (simp add: read_name_def is_closed_def)
  ultimately show ?thesis using pt pu returned_no_send[OF pu] by (simp add: pc_of_def)
qed

theorem eof_before_name_witness:
  "\<exists>s t u. run [Start ''Milk-V Duo'' None, Accept 1 ''127.0.0.1:45678'' ''2024-01-15T10:30:45Z''] NewServer = Some s \<and>
     handlers s 1 = Some HReadName \<and> step (Scan 1 None clock0) s = Some t \<and>
     run [Accept 2 ''127.0.0.1:45679'' ''2024-01-15T10:30:50Z'', Scan 2 (Some ''Bob'') clock0, RecvNew 2, Register 2, Process] t = Some u \<and>
     pc_of 1 u = Some (HReturned RetNoName) \<and> is_closed 1 t \<and> \<not> registered 1 u \<and> registered 2 u \<and>
     Join 1 \<notin> set (processed u) \<and> Leave 1 \<notin> set (processed u) \<and> step (RecvNew 1) u = None"
proof -
  let ?pre = "[Start ''Milk-V Duo'' None, Accept 1 ''127.0.0.1:45678'' ''2024-01-15T10:30:45Z'']"
  let ?post = "[Accept 2 ''127.0.0.1:45679'' ''2024-01-15T10:30:50Z'', Scan 2 (Some ''Bob'') clock0, RecvNew 2, Register 2, Process]"
  have "map_option (registered 2) (run (?pre @ Scan 1 None clock0 # ?post) NewServer) = Some True"
    by code_simp
  then obtain u where u: "run (?pre @ Scan 1 None clock0 # ?post) NewServer = Some u" and r2: "registered 2 u"
    by auto
  from run_split[OF u] obtain s t where s: "run ?pre NewServer = Some s"
    and st: "step (Scan 1 None clock0) s = Some t" and tu: "run ?post t = Some u" by blast
  have "map_option (pc_of 1) (run ?pre NewServer) = Some (Some HReadName)" by code_simp
  with s have hs: "handlers s 1 = Some HReadName" by (simp add: pc_of_def)
  from eof_before_name_never_registers[OF s hs st tu] s hs st tu r2 show ?thesis by blast
qed

end
